theory Spec2Isabelle
  imports Main
begin

section \<open>The modal component of packages/ui/src/components/modal.tsx\<close>

text \<open>
  The components are modelled over a world \<open>'w\<close>: everything a callback can change.
  A callback of type \<^verbatim>\<open>() => void\<close> that cannot fail (the two closures of the provider)
  is a function \<open>'w \<Rightarrow> 'w\<close>. A callback supplied by the caller may throw, and the
  \<^verbatim>\<open>onClick\<close> of an action may return a promise, so such a callback returns a
  \<open>completion\<close>. Class names and animation variants carry no behaviour and are left out.
\<close>

subsection \<open>Context and \<^verbatim>\<open>useModal\<close>\<close>

record 'w ModalContextProps =
  isOpen :: bool
  openModal :: "'w \<Rightarrow> 'w"
  closeModal :: "'w \<Rightarrow> 'w"

datatype error = Error string

text \<open>
  \<^verbatim>\<open>createContext<ModalContextProps | undefined>(undefined)\<close>: reading the context
  gives the value of the nearest enclosing provider, or the default \<^verbatim>\<open>undefined\<close>.
  The enclosing providers are listed from the innermost outwards.
\<close>

definition useContext :: "'c list \<Rightarrow> 'c option" where
  "useContext providers = (case providers of [] \<Rightarrow> None | v # _ \<Rightarrow> Some v)"

definition useModal :: "'w ModalContextProps list \<Rightarrow> error + 'w ModalContextProps" where
  "useModal providers =
     (case useContext providers of
        None \<Rightarrow> Inl (Error ''useModal must be used within a ModalProvider'')
      | Some context \<Rightarrow> Inr context)"

subsection \<open>Callbacks, promises and async functions\<close>

text \<open>
  What a call of a caller-supplied callback returns: \<^verbatim>\<open>undefined\<close>, or a promise
  (identified by a number).
\<close>

datatype awaitable = Void | Promise nat

datatype 'w completion = Normal awaitable 'w | Thrown 'w

type_synonym 'w callback = "'w \<Rightarrow> 'w completion"

definition void_call :: "('w \<Rightarrow> 'w) \<Rightarrow> 'w callback" where
  "void_call f = (\<lambda>w. Normal Void (f w))"

datatype settlement = Fulfilled | Rejected

text \<open>
  A call of an async function runs up to its first \<^verbatim>\<open>await\<close> and returns: it has
  then run to its end (\<open>Resolved\<close>), thrown (\<open>Failed\<close>), or is \<open>Suspended\<close> on a
  value, having left a world; the rest of its body runs later, on the world of that
  later moment and given how the awaited promise settled.
\<close>

datatype 'w async =
    Resolved 'w
  | Failed 'w
  | Suspended awaitable 'w "settlement \<Rightarrow> 'w \<Rightarrow> 'w async"

text \<open>
  \<^verbatim>\<open>await v; rest\<close>. Awaiting a value that is no promise always continues normally;
  awaiting a rejected promise throws, which rejects the async function.
\<close>

definition await :: "awaitable \<Rightarrow> 'w \<Rightarrow> ('w \<Rightarrow> 'w async) \<Rightarrow> 'w async" where
  "await v w rest =
     Suspended v w
       (\<lambda>r w'. case v of
                 Void \<Rightarrow> rest w'
               | Promise p \<Rightarrow> (case r of Fulfilled \<Rightarrow> rest w' | Rejected \<Rightarrow> Failed w'))"

subsection \<open>\<^verbatim>\<open>Modal\<close>: the rendered layer\<close>

text \<open>
  The closure \<^verbatim>\<open>handleEscape\<close> that the effect of \<^verbatim>\<open>Modal\<close> creates, applied to a
  keyboard event with the given \<^verbatim>\<open>key\<close>.
\<close>

definition handleEscape :: "'w ModalContextProps \<Rightarrow> string \<Rightarrow> 'w \<Rightarrow> 'w" where
  "handleEscape ctx key w = (if key = ''Escape'' then closeModal ctx w else w)"

text \<open>
  What \<^verbatim>\<open>Modal\<close> returns inside \<^verbatim>\<open><AnimatePresence>\<close>: nothing
  (\<^verbatim>\<open>isOpen && ...\<close> is \<^verbatim>\<open>false\<close>), or the backdrop \<^verbatim>\<open>motion.div\<close> with its
  \<^verbatim>\<open>onClick\<close>, holding the inner \<^verbatim>\<open>motion.div\<close> with the children. The remaining props
  spread over the backdrop are typed so that they hold no \<^verbatim>\<open>onClick\<close>. The effect that
  \<^verbatim>\<open>Modal\<close> registers with \<^verbatim>\<open>useEffect\<close> acts on the document and is modelled below, as
  \<open>Modal_effect\<close> and \<open>Modal_cleanup\<close>.
\<close>

record ('w, 'n) overlay =
  backdrop_onClick :: "'w callback"
  content :: 'n

definition Modal ::
  "'w ModalContextProps list \<Rightarrow> 'w callback option \<Rightarrow> 'n \<Rightarrow> error + ('w, 'n) overlay option"
where
  "Modal providers onClickOutside children =
     (case useModal providers of
        Inl e \<Rightarrow> Inl e
      | Inr ctx \<Rightarrow>
          Inr (if isOpen ctx
               then Some \<lparr> backdrop_onClick =
                             (case onClickOutside of
                                Some f \<Rightarrow> f
                              | None \<Rightarrow> void_call (closeModal ctx)),
                           content = children \<rparr>
               else None))"

text \<open>
  A click lands on the backdrop itself or inside the inner \<^verbatim>\<open>motion.div\<close>, whose own
  handler \<^verbatim>\<open>(e) => e.stopPropagation()\<close> keeps it from reaching the backdrop.
\<close>

datatype click_target = Backdrop | Content

definition overlay_click :: "click_target \<Rightarrow> ('w, 'n) overlay \<Rightarrow> 'w callback" where
  "overlay_click target ov w =
     (case target of
        Content \<Rightarrow> Normal Void w
      | Backdrop \<Rightarrow> backdrop_onClick ov w)"

subsection \<open>\<^verbatim>\<open>Modal.Trigger\<close>, \<^verbatim>\<open>Modal.Action\<close> and \<^verbatim>\<open>Modal.Close\<close>\<close>

text \<open>An element with an \<^verbatim>\<open>onClick\<close> handler and children.\<close>

datatype ('h, 'n) element = Div 'h 'n | Button 'h 'n

fun element_onClick :: "('h, 'n) element \<Rightarrow> 'h" where
  "element_onClick (Div h c) = h"
| "element_onClick (Button h c) = h"

fun element_children :: "('h, 'n) element \<Rightarrow> 'n" where
  "element_children (Div h c) = c"
| "element_children (Button h c) = c"

definition Trigger_handleClick :: "'w ModalContextProps \<Rightarrow> 'w callback option \<Rightarrow> 'w callback" where
  "Trigger_handleClick ctx onClick w =
     (let w' = openModal ctx w in
      case onClick of
        Some f \<Rightarrow> (case f w' of Normal v w'' \<Rightarrow> Normal Void w'' | Thrown w'' \<Rightarrow> Thrown w'')
      | None \<Rightarrow> Normal Void w')"

definition Modal_Trigger ::
  "'w ModalContextProps list \<Rightarrow> 'n \<Rightarrow> 'w callback option \<Rightarrow> bool option
   \<Rightarrow> error + ('w callback, 'n) element"
where
  "Modal_Trigger providers children onClick asChild =
     (case useModal providers of
        Inl e \<Rightarrow> Inl e
      | Inr ctx \<Rightarrow>
          Inr (if (case asChild of None \<Rightarrow> False | Some b \<Rightarrow> b)
               then Div (Trigger_handleClick ctx onClick) children
               else Button (Trigger_handleClick ctx onClick) children))"

text \<open>
  \<^verbatim>\<open>async () => { if (onClick) { await onClick(); } closeModal(); }\<close>
\<close>

definition Action_handleClick :: "'w ModalContextProps \<Rightarrow> 'w callback option \<Rightarrow> 'w \<Rightarrow> 'w async" where
  "Action_handleClick ctx onClick w =
     (case onClick of
        Some f \<Rightarrow>
          (case f w of
             Thrown w' \<Rightarrow> Failed w'
           | Normal v w' \<Rightarrow> await v w' (\<lambda>w''. Resolved (closeModal ctx w'')))
      | None \<Rightarrow> Resolved (closeModal ctx w))"

record ('w, 'n) ModalActionProps =
  fullWidth :: "bool option"
  onClick :: "'w callback option"
  className :: "string option"
  children :: 'n

definition Modal_Action ::
  "'w ModalContextProps list \<Rightarrow> ('w, 'n) ModalActionProps
   \<Rightarrow> error + ('w \<Rightarrow> 'w async, 'n) element"
where
  "Modal_Action providers props =
     (case useModal providers of
        Inl e \<Rightarrow> Inl e
      | Inr ctx \<Rightarrow> Inr (Button (Action_handleClick ctx (onClick props)) (children props)))"

text \<open>
  \<^verbatim>\<open><Modal.Action {...props} onClick={useModal().closeModal}>{props.children}</Modal.Action>\<close>:
  the \<^verbatim>\<open>onClick\<close> written after the spread replaces the one in \<^verbatim>\<open>props\<close>.
\<close>

definition Modal_Close ::
  "'w ModalContextProps list \<Rightarrow> ('w, 'n) ModalActionProps
   \<Rightarrow> error + ('w \<Rightarrow> 'w async, 'n) element"
where
  "Modal_Close providers props =
     (case useModal providers of
        Inl e \<Rightarrow> Inl e
      | Inr ctx \<Rightarrow>
          Modal_Action providers
            (props\<lparr> onClick := Some (void_call (closeModal ctx)), children := children props \<rparr>))"

section \<open>One provider, its \<^verbatim>\<open>Modal\<close>s and the document\<close>

text \<open>
  The world of a running page: the state cell of one \<^verbatim>\<open>ModalProvider\<close>, the
  \<^verbatim>\<open>keydown\<close> listeners that the document holds, and the \<^verbatim>\<open>Modal\<close> components
  mounted below that provider, in the order of their mounting. Every closure
  \<^verbatim>\<open>handleEscape\<close> is a new function object, so each is given a new number; the document
  knows a listener by that identity.

  Of a mounted \<^verbatim>\<open>Modal\<close> the world holds: the value of \<^verbatim>\<open>isOpen\<close> at its last render
  (that render returned the layer exactly if it was true); whether \<^verbatim>\<open>AnimatePresence\<close>
  still keeps the layer of an earlier render in the document, for its exit animation; and
  the last run of its effect, if it has run, as the value of \<^verbatim>\<open>isOpen\<close> it ran with and
  the closure it made, which is the one its cleanup removes.

  The effect is a passive one (\<^verbatim>\<open>useEffect\<close>): it does not run with the render but when
  React next runs the pending effects, which may be right after the render or later, with
  events in between. The same holds for the cleanup of a \<^verbatim>\<open>Modal\<close> that was unmounted:
  \<open>unmounted_cleanups\<close> holds the closures whose removal is pending.
\<close>

record Modal_instance =
  rendered_isOpen :: bool
  exiting :: bool
  effect_hook :: "(bool \<times> nat) option"

record system =
  isOpen_state :: bool
  listeners :: "nat list"
  Modals :: "Modal_instance list"
  unmounted_cleanups :: "nat list"
  next_closure :: nat

subsection \<open>\<^verbatim>\<open>ModalProvider\<close>\<close>

text \<open>\<^verbatim>\<open>useState<boolean>(false)\<close> at the mount of the provider, nothing else on the page.\<close>

definition mounted_provider :: system where
  "mounted_provider =
     \<lparr> isOpen_state = False, listeners = [], Modals = [], unmounted_cleanups = [],
       next_closure = 0 \<rparr>"

definition setIsOpen :: "bool \<Rightarrow> system \<Rightarrow> system" where
  "setIsOpen v s = s\<lparr> isOpen_state := v \<rparr>"

text \<open>
  The context value of a render. The two closures come from \<^verbatim>\<open>useCallback\<close> with no
  dependencies, so they are the same functions in every render.
\<close>

definition ModalProvider :: "system \<Rightarrow> system ModalContextProps" where
  "ModalProvider s =
     \<lparr> isOpen = isOpen_state s, openModal = setIsOpen True, closeModal = setIsOpen False \<rparr>"

subsection \<open>The document's listeners\<close>

text \<open>
  \<^verbatim>\<open>addEventListener\<close> does not add a listener that is already registered;
  \<^verbatim>\<open>removeEventListener\<close> of one that is not registered does nothing.
\<close>

definition addEventListener :: "nat \<Rightarrow> nat list \<Rightarrow> nat list" where
  "addEventListener h ls = (if h \<in> set ls then ls else ls @ [h])"

definition removeEventListener :: "nat \<Rightarrow> nat list \<Rightarrow> nat list" where
  "removeEventListener h ls = remove1 h ls"

subsection \<open>The effect of \<^verbatim>\<open>Modal\<close>\<close>

text \<open>
  The body of the effect, for the value of \<^verbatim>\<open>isOpen\<close> of its render and the new closure
  \<^verbatim>\<open>handleEscape\<close>: the closure is added if \<^verbatim>\<open>isOpen\<close> and removed otherwise. What the
  effect returns, the cleanup, removes that same closure.
\<close>

definition Modal_effect :: "bool \<Rightarrow> nat \<Rightarrow> nat list \<Rightarrow> nat list" where
  "Modal_effect v h ls =
     (if v then addEventListener h ls else removeEventListener h ls)"

definition Modal_cleanup :: "nat \<Rightarrow> nat list \<Rightarrow> nat list" where
  "Modal_cleanup h ls = removeEventListener h ls"

text \<open>
  The dependencies of the effect are \<^verbatim>\<open>[isOpen, closeModal]\<close>, and \<^verbatim>\<open>closeModal\<close> never
  changes: the effect of a \<^verbatim>\<open>Modal\<close> is pending after its first render, and after a
  render with a value of \<^verbatim>\<open>isOpen\<close> other than the one of its last run.
\<close>

definition effect_pending :: "Modal_instance \<Rightarrow> bool" where
  "effect_pending m =
     (case effect_hook m of
        None \<Rightarrow> True
      | Some (d, h) \<Rightarrow> d \<noteq> rendered_isOpen m)"

text \<open>
  Running the pending effects: first the cleanups, of the unmounted \<^verbatim>\<open>Modal\<close>s and of
  the last runs of the pending effects; then the pending effects themselves, each with a new
  closure.
\<close>

definition cleanup_pending :: "Modal_instance \<Rightarrow> nat list \<Rightarrow> nat list" where
  "cleanup_pending m ls =
     (case effect_hook m of
        None \<Rightarrow> ls
      | Some (d, h) \<Rightarrow> if d \<noteq> rendered_isOpen m then Modal_cleanup h ls else ls)"

definition run_cleanups :: "system \<Rightarrow> system" where
  "run_cleanups s =
     s\<lparr> listeners :=
           fold cleanup_pending (Modals s) (fold Modal_cleanup (unmounted_cleanups s) (listeners s)),
         unmounted_cleanups := [] \<rparr>"

fun run_effects ::
  "Modal_instance list \<Rightarrow> nat list \<Rightarrow> nat \<Rightarrow> Modal_instance list \<times> nat list \<times> nat"
where
  "run_effects [] ls n = ([], ls, n)"
| "run_effects (m # ms) ls n =
     (if effect_pending m
      then (case run_effects ms (Modal_effect (rendered_isOpen m) n ls) (Suc n) of
              (ms', ls', n') \<Rightarrow> (m\<lparr> effect_hook := Some (rendered_isOpen m, n) \<rparr> # ms', ls', n'))
      else (case run_effects ms ls n of
              (ms', ls', n') \<Rightarrow> (m # ms', ls', n')))"

definition run_passive_effects :: "system \<Rightarrow> system" where
  "run_passive_effects s =
     (let s' = run_cleanups s in
      case run_effects (Modals s') (listeners s') (next_closure s') of
        (ms, ls, n) \<Rightarrow> s'\<lparr> Modals := ms, listeners := ls, next_closure := n \<rparr>)"

subsection \<open>Rendering\<close>

text \<open>
  A render of one \<^verbatim>\<open>Modal\<close> in a context. If it returns no layer while a layer is in the
  document, \<^verbatim>\<open>AnimatePresence\<close> keeps that layer for the exit animation that the layer
  declares (\<^verbatim>\<open>exit={{ opacity: 0 }}\<close>).
\<close>

definition returns_layer :: "system ModalContextProps \<Rightarrow> bool" where
  "returns_layer ctx = (case Modal [ctx] None () of Inr (Some ov) \<Rightarrow> True | _ \<Rightarrow> False)"

definition layer_mounted :: "Modal_instance \<Rightarrow> bool" where
  "layer_mounted m = (rendered_isOpen m \<or> exiting m)"

definition render_Modal :: "system ModalContextProps \<Rightarrow> Modal_instance \<Rightarrow> Modal_instance" where
  "render_Modal ctx m =
     m\<lparr> rendered_isOpen := returns_layer ctx,
        exiting := (\<not> returns_layer ctx \<and> layer_mounted m) \<rparr>"

text \<open>
  The render that follows the handlers of an event: none if the state of the provider is
  the one of the last render. Before React renders, it runs the effects that are still
  pending.
\<close>

definition render :: "system \<Rightarrow> system" where
  "render s =
     (if list_all (\<lambda>m. rendered_isOpen m = isOpen_state s) (Modals s) then s
      else (let s' = run_passive_effects s in
            s'\<lparr> Modals := map (render_Modal (ModalProvider s')) (Modals s') \<rparr>))"

subsection \<open>Events\<close>

text \<open>
  A number in an event is the position of a \<^verbatim>\<open>Modal\<close> among the mounted ones.
  \<open>ExitComplete\<close> is the end of the exit animation of a layer, \<open>RunEffects\<close> the moment
  at which React runs the pending effects.
\<close>

datatype event =
    CallOpenModal
  | CallCloseModal
  | ClickTrigger
  | ClickBackdrop nat
  | KeyDown string
  | MountModal
  | UnmountModal nat
  | ExitComplete nat
  | RunEffects

fun world_of :: "'w completion \<Rightarrow> 'w" where
  "world_of (Normal v w) = w"
| "world_of (Thrown w) = w"

text \<open>
  A \<^verbatim>\<open>keydown\<close> event on the document calls every registered listener; each of them is a
  \<^verbatim>\<open>handleEscape\<close> over the provider's \<^verbatim>\<open>closeModal\<close>.
\<close>

definition dispatch_keydown :: "string \<Rightarrow> system \<Rightarrow> system" where
  "dispatch_keydown key s = fold (\<lambda>h. handleEscape (ModalProvider s) key) (listeners s) s"

text \<open>
  Mounting a \<^verbatim>\<open>Modal\<close> is its first render; its effect is pending. Unmounting one takes
  its layer out of the document at once and leaves the cleanup of its effect pending. Both
  are renders, so the pending effects run first.
\<close>

definition mount_Modal :: "system \<Rightarrow> system" where
  "mount_Modal s =
     (let s' = run_passive_effects s in
      s'\<lparr> Modals := Modals s' @
           [\<lparr> rendered_isOpen = returns_layer (ModalProvider s'), exiting = False,
              effect_hook = None \<rparr>] \<rparr>)"

definition unmount_Modal :: "nat \<Rightarrow> system \<Rightarrow> system" where
  "unmount_Modal i s =
     (let s' = run_passive_effects s in
      if i < length (Modals s')
      then s'\<lparr> Modals := take i (Modals s') @ drop (Suc i) (Modals s'),
               unmounted_cleanups :=
                 unmounted_cleanups s' @
                 (case effect_hook (Modals s' ! i) of None \<Rightarrow> [] | Some (d, h) \<Rightarrow> [h]) \<rparr>
      else s')"

text \<open>
  What the handlers of an event do. The trigger and the modal are used without handlers of
  the caller's. A click on a backdrop can only happen while that layer is in the document;
  the layer is the one that a render with \<^verbatim>\<open>isOpen\<close> true returned. A click on a
  \<^verbatim>\<open>Modal.Action\<close> or a \<^verbatim>\<open>Modal.Close\<close> shows in a sequence of events as the calls of
  \<^verbatim>\<open>closeModal\<close> that it makes, each at the moment it is made.
\<close>

fun handle :: "event \<Rightarrow> system \<Rightarrow> system" where
  "handle CallOpenModal s = openModal (ModalProvider s) s"
| "handle CallCloseModal s = closeModal (ModalProvider s) s"
| "handle ClickTrigger s =
     (case Modal_Trigger [ModalProvider s] () None None of
        Inl e \<Rightarrow> s
      | Inr el \<Rightarrow> world_of (element_onClick el s))"
| "handle (ClickBackdrop i) s =
     (if i < length (Modals s) \<and> layer_mounted (Modals s ! i)
      then (case Modal [(ModalProvider s)\<lparr> isOpen := True \<rparr>] None () of
              Inr (Some ov) \<Rightarrow> world_of (overlay_click Backdrop ov s)
            | _ \<Rightarrow> s)
      else s)"
| "handle (KeyDown key) s = dispatch_keydown key s"
| "handle MountModal s = mount_Modal s"
| "handle (UnmountModal i) s = unmount_Modal i s"
| "handle (ExitComplete i) s =
     (if i < length (Modals s)
      then s\<lparr> Modals := (Modals s)[i := (Modals s ! i)\<lparr> exiting := False \<rparr>] \<rparr>
      else s)"
| "handle RunEffects s = run_passive_effects s"

text \<open>An event runs its handlers, then the page renders.\<close>

definition step :: "event \<Rightarrow> system \<Rightarrow> system" where
  "step e s = render (handle e s)"

definition run :: "event list \<Rightarrow> system \<Rightarrow> system" where
  "run es s = fold step es s"

subsection \<open>The vocabulary of the specification\<close>

text \<open>The modal is visible: the last render of some mounted \<^verbatim>\<open>Modal\<close> returned its layer.\<close>

definition visible :: "system \<Rightarrow> bool" where
  "visible s = list_ex rendered_isOpen (Modals s)"

text \<open>An open event: a click on the trigger or a call of \<^verbatim>\<open>openModal\<close>.\<close>

fun open_event :: "event \<Rightarrow> bool" where
  "open_event CallOpenModal = True"
| "open_event ClickTrigger = True"
| "open_event e = False"

text \<open>
  A close event in a given state: a call of \<^verbatim>\<open>closeModal\<close> (also the one that a click
  on a backdrop in the document makes), or a press of the escape key while the modal is
  visible.
\<close>

fun close_event :: "event \<Rightarrow> system \<Rightarrow> bool" where
  "close_event CallCloseModal s = True"
| "close_event (ClickBackdrop i) s = (i < length (Modals s) \<and> layer_mounted (Modals s ! i))"
| "close_event (KeyDown key) s = (key = ''Escape'' \<and> visible s)"
| "close_event e s = False"

text \<open>
  In a sequence of events, some open event has no close event after it. The state in which
  an event happens is the one reached by the events before it, as given by \<open>before\<close>.
\<close>

definition opened_not_closed :: "(event list \<Rightarrow> system) \<Rightarrow> event list \<Rightarrow> bool" where
  "opened_not_closed before es =
     (\<exists>i<length es. open_event (es ! i) \<and>
        (\<forall>j. i < j \<and> j < length es \<longrightarrow> \<not> close_event (es ! j) (before (take j es))))"

text \<open>The pending effects run before every key press.\<close>

definition effects_before_keys :: "event list \<Rightarrow> event list" where
  "effects_before_keys es =
     concat (map (\<lambda>e. case e of KeyDown key \<Rightarrow> [RunEffects, KeyDown key] | _ \<Rightarrow> [e]) es)"

subsection \<open>Invariants\<close>

text \<open>
  The closures of the last runs of the effects of the mounted \<^verbatim>\<open>Modal\<close>s, and those of
  them that the run attached.
\<close>

definition hook_ids :: "Modal_instance list \<Rightarrow> nat list" where
  "hook_ids ms =
     concat (map (\<lambda>m. case effect_hook m of None \<Rightarrow> [] | Some (d, h) \<Rightarrow> [h]) ms)"

definition attached :: "Modal_instance list \<Rightarrow> nat set" where
  "attached ms = {h. \<exists>m \<in> set ms. effect_hook m = Some (True, h)}"

text \<open>
  The document holds the attached closures of the mounted \<^verbatim>\<open>Modal\<close>s and, besides,
  only closures whose cleanup is pending; closures are not shared.
\<close>

definition listeners_inv :: "system \<Rightarrow> bool" where
  "listeners_inv s =
     (distinct (listeners s)
      \<and> attached (Modals s) \<subseteq> set (listeners s)
      \<and> set (listeners s) \<subseteq> attached (Modals s) \<union> set (unmounted_cleanups s)
      \<and> distinct (hook_ids (Modals s))
      \<and> set (hook_ids (Modals s)) \<inter> set (unmounted_cleanups s) = {}
      \<and> (\<forall>h \<in> set (hook_ids (Modals s)) \<union> set (unmounted_cleanups s). h < next_closure s))"

text \<open>Between events every mounted \<^verbatim>\<open>Modal\<close> has rendered the current state.\<close>

definition rendered_current :: "system \<Rightarrow> bool" where
  "rendered_current s = list_all (\<lambda>m. rendered_isOpen m = isOpen_state s) (Modals s)"

text \<open>
  The closures of last runs whose effect is pending, and the closures that were attached
  by a last run whose effect is not pending.
\<close>

definition stale_ids :: "Modal_instance list \<Rightarrow> nat set" where
  "stale_ids ms =
     {h. \<exists>m \<in> set ms. \<exists>d. effect_hook m = Some (d, h) \<and> d \<noteq> rendered_isOpen m}"

definition settled_attached :: "Modal_instance list \<Rightarrow> nat set" where
  "settled_attached ms =
     {h. \<exists>m \<in> set ms. rendered_isOpen m \<and> effect_hook m = Some (True, h)}"

text \<open>What a run of the pending effects establishes.\<close>

definition effects_post ::
  "Modal_instance list \<Rightarrow> nat list \<Rightarrow> nat \<Rightarrow> Modal_instance list \<times> nat list \<times> nat \<Rightarrow> bool"
where
  "effects_post ms ls n r =
     (case r of (ms', ls', n') \<Rightarrow>
        n \<le> n'
        \<and> map rendered_isOpen ms' = map rendered_isOpen ms
        \<and> map exiting ms' = map exiting ms
        \<and> (\<forall>m \<in> set ms'. \<not> effect_pending m)
        \<and> distinct ls'
        \<and> (\<forall>h \<in> set ls'. h < n')
        \<and> (\<forall>h \<in> set (hook_ids ms'). h < n')
        \<and> distinct (hook_ids ms')
        \<and> set ls' = set ls \<union> {h \<in> attached ms'. n \<le> h}
        \<and> {h \<in> attached ms'. h < n} = settled_attached ms
        \<and> {h \<in> set (hook_ids ms'). h < n} \<subseteq> set (hook_ids ms))"

section \<open>Properties\<close>

subsection \<open>Invariant lemmas\<close>

lemma hook_ids_Cons:
  "hook_ids (m # ms) =
     (case effect_hook m of None \<Rightarrow> [] | Some (d, h) \<Rightarrow> [h]) @ hook_ids ms"
  by (simp add: hook_ids_def)

lemma hook_ids_append: "hook_ids (xs @ ys) = hook_ids xs @ hook_ids ys"
  by (simp add: hook_ids_def)

lemma set_hook_ids:
  "set (hook_ids ms) = {h. \<exists>m \<in> set ms. \<exists>d. effect_hook m = Some (d, h)}"
proof (induction ms)
  case Nil
  show ?case by (simp add: hook_ids_def)
next
  case (Cons m ms)
  show ?case
  proof (cases "effect_hook m")
    case None
    then show ?thesis using Cons by (auto simp: hook_ids_Cons)
  next
    case (Some p)
    then show ?thesis using Cons by (cases p) (auto simp: hook_ids_Cons)
  qed
qed

lemma attached_subset_hook_ids: "attached ms \<subseteq> set (hook_ids ms)"
  by (auto simp: attached_def set_hook_ids)

lemma same_closure_same_Modal:
  "distinct (hook_ids ms) \<Longrightarrow> m \<in> set ms \<Longrightarrow> m' \<in> set ms \<Longrightarrow>
   effect_hook m = Some (d, h) \<Longrightarrow> effect_hook m' = Some (d', h) \<Longrightarrow> m = m'"
proof (induction ms)
  case Nil
  then show ?case by simp
next
  case (Cons a ms)
  have n: "effect_hook a = Some (e, h) \<Longrightarrow> x \<in> set ms \<Longrightarrow> effect_hook x \<noteq> Some (e', h)"
    for e e' x
    using Cons.prems(1) by (auto simp: hook_ids_Cons set_hook_ids)
  have dm: "distinct (hook_ids ms)"
    using Cons.prems(1) by (simp add: hook_ids_Cons)
  show ?case
  proof (cases "m = a")
    case True
    show ?thesis
    proof (cases "m' = a")
      case True
      with \<open>m = a\<close> show ?thesis by simp
    next
      case False
      with Cons.prems have "m' \<in> set ms" by simp
      with n [of d m' d'] Cons.prems True show ?thesis by simp
    qed
  next
    case False
    with Cons.prems have mm: "m \<in> set ms" by simp
    show ?thesis
    proof (cases "m' = a")
      case True
      with n [of d' m d] Cons.prems mm show ?thesis by simp
    next
      case False
      with Cons.prems have "m' \<in> set ms" by simp
      with Cons.IH [OF dm mm] Cons.prems show ?thesis by simp
    qed
  qed
qed

lemma settled_attached_eq:
  assumes "distinct (hook_ids ms)"
  shows "settled_attached ms = attached ms - stale_ids ms"
proof (intro set_eqI iffI)
  fix h assume "h \<in> settled_attached ms"
  then obtain m where m: "m \<in> set ms" "rendered_isOpen m" "effect_hook m = Some (True, h)"
    by (auto simp: settled_attached_def)
  have "h \<notin> stale_ids ms"
  proof
    assume "h \<in> stale_ids ms"
    then obtain m' d where m': "m' \<in> set ms" "effect_hook m' = Some (d, h)"
      "d \<noteq> rendered_isOpen m'"
      by (auto simp: stale_ids_def)
    have "m = m'" by (rule same_closure_same_Modal [OF assms m(1) m'(1) m(3) m'(2)])
    with m m' show False by simp
  qed
  with m show "h \<in> attached ms - stale_ids ms" by (auto simp: attached_def)
next
  fix h assume "h \<in> attached ms - stale_ids ms"
  then obtain m where m: "m \<in> set ms" "effect_hook m = Some (True, h)"
    and n: "h \<notin> stale_ids ms"
    by (auto simp: attached_def)
  have "rendered_isOpen m"
  proof (rule ccontr)
    assume "\<not> rendered_isOpen m"
    with m have "h \<in> stale_ids ms" unfolding stale_ids_def by blast
    with n show False by simp
  qed
  with m show "h \<in> settled_attached ms"
    unfolding settled_attached_def by blast
qed

lemma removeAll_filter: "removeAll a ls = filter (\<lambda>h. h \<noteq> a) ls"
  by (induction ls) auto

lemma remove1_filter: "distinct ls \<Longrightarrow> remove1 a ls = filter (\<lambda>h. h \<noteq> a) ls"
  by (simp add: distinct_remove1_removeAll removeAll_filter)

lemma fold_Modal_cleanup:
  "distinct ls \<Longrightarrow> fold Modal_cleanup hs ls = filter (\<lambda>h. h \<notin> set hs) ls"
proof (induction hs arbitrary: ls)
  case Nil
  then show ?case by simp
next
  case (Cons a hs)
  have "Modal_cleanup a ls = filter (\<lambda>h. h \<noteq> a) ls"
    using Cons.prems by (simp add: Modal_cleanup_def removeEventListener_def remove1_filter)
  moreover have "filter (\<lambda>h. h \<notin> set hs) (filter (\<lambda>h. h \<noteq> a) ls)
      = filter (\<lambda>h. h \<notin> set (a # hs)) ls"
    by (induction ls) auto
  ultimately show ?case
    using Cons by simp
qed

lemma stale_ids_Cons:
  "stale_ids (m # ms) =
      (case effect_hook m of None \<Rightarrow> {}
       | Some (d, h) \<Rightarrow> if d \<noteq> rendered_isOpen m then {h} else {}) \<union> stale_ids ms"
  by (auto simp: stale_ids_def split: option.splits)

lemma cleanup_pending_filter:
  "distinct ls \<Longrightarrow> cleanup_pending m ls =
      filter (\<lambda>h. h \<notin> (case effect_hook m of None \<Rightarrow> {}
       | Some (d, h) \<Rightarrow> if d \<noteq> rendered_isOpen m then {h} else {})) ls"
  by (simp add: cleanup_pending_def Modal_cleanup_def removeEventListener_def
      remove1_filter split: option.splits)

lemma fold_cleanup_pending:
  "distinct ls \<Longrightarrow> fold cleanup_pending ms ls = filter (\<lambda>h. h \<notin> stale_ids ms) ls"
proof (induction ms arbitrary: ls)
  case Nil
  then show ?case by (simp add: stale_ids_def)
next
  case (Cons m ms)
  let ?X = "case effect_hook m of None \<Rightarrow> {}
       | Some (d, h) \<Rightarrow> if d \<noteq> rendered_isOpen m then {h} else {}"
  have c: "cleanup_pending m ls = filter (\<lambda>h. h \<notin> ?X) ls"
    by (rule cleanup_pending_filter [OF Cons.prems])
  have d: "distinct (cleanup_pending m ls)"
    using Cons.prems by (simp add: c)
  have "filter (\<lambda>h. h \<notin> stale_ids ms) (filter (\<lambda>h. h \<notin> ?X) ls)
      = filter (\<lambda>h. h \<notin> ?X \<union> stale_ids ms) ls"
    by (induction ls) auto
  then show ?case
    using Cons.IH [OF d] by (simp add: stale_ids_Cons c)
qed

lemma run_cleanups_listeners:
  assumes "listeners_inv s"
  shows "distinct (listeners (run_cleanups s))"
    and "set (listeners (run_cleanups s)) = settled_attached (Modals s)"
proof -
  have d: "distinct (listeners s)" using assms by (simp add: listeners_inv_def)
  have d1: "distinct (fold Modal_cleanup (unmounted_cleanups s) (listeners s))"
    by (simp add: fold_Modal_cleanup [OF d] d)
  have "listeners (run_cleanups s) =
      fold cleanup_pending (Modals s)
        (fold Modal_cleanup (unmounted_cleanups s) (listeners s))"
    by (simp add: run_cleanups_def)
  also have "\<dots> = filter (\<lambda>h. h \<notin> stale_ids (Modals s))
        (fold Modal_cleanup (unmounted_cleanups s) (listeners s))"
    by (rule fold_cleanup_pending [OF d1])
  finally have l: "listeners (run_cleanups s) =
      filter (\<lambda>h. h \<notin> stale_ids (Modals s))
        (filter (\<lambda>h. h \<notin> set (unmounted_cleanups s)) (listeners s))"
    by (simp only: fold_Modal_cleanup [OF d])
  show "distinct (listeners (run_cleanups s))" by (simp add: l d)
  have e: "settled_attached (Modals s) = attached (Modals s) - stale_ids (Modals s)"
    using assms by (simp add: settled_attached_eq listeners_inv_def)
  have i: "attached (Modals s) \<inter> set (unmounted_cleanups s) = {}"
    using assms attached_subset_hook_ids [of "Modals s"] by (auto simp: listeners_inv_def)
  have a: "attached (Modals s) \<subseteq> set (listeners s)"
    and b: "set (listeners s) \<subseteq> attached (Modals s) \<union> set (unmounted_cleanups s)"
    using assms by (simp_all add: listeners_inv_def)
  have "set (listeners (run_cleanups s))
      = (set (listeners s) - set (unmounted_cleanups s)) - stale_ids (Modals s)"
    by (auto simp: l)
  also have "\<dots> = attached (Modals s) - stale_ids (Modals s)"
    using a b i by blast
  finally show "set (listeners (run_cleanups s)) = settled_attached (Modals s)"
    by (simp add: e)
qed


lemma attached_Cons: "attached (m # ms) = {h. effect_hook m = Some (True, h)} \<union> attached ms"
  by (auto simp: attached_def)

lemma settled_attached_Cons:
  "settled_attached (m # ms) =
     {h. rendered_isOpen m \<and> effect_hook m = Some (True, h)} \<union> settled_attached ms"
  by (auto simp: settled_attached_def)

lemma settled_attached_subset: "settled_attached ms \<subseteq> set (hook_ids ms)"
  by (auto simp: settled_attached_def set_hook_ids)

lemma Modal_effect_fresh:
  "h \<notin> set ls \<Longrightarrow> Modal_effect v h ls = (if v then ls @ [h] else ls)"
  by (simp add: Modal_effect_def addEventListener_def removeEventListener_def remove1_idem)

lemma run_effects_post:
  "distinct ls \<Longrightarrow> \<forall>h \<in> set ls. h < n \<Longrightarrow> \<forall>h \<in> set (hook_ids ms). h < n \<Longrightarrow>
   distinct (hook_ids ms) \<Longrightarrow> effects_post ms ls n (run_effects ms ls n)"
proof (induction ms arbitrary: ls n)
  case Nil
  then show ?case
    by (auto simp: effects_post_def hook_ids_def attached_def settled_attached_def)
next
  case (Cons m ms)
  have lt: "\<forall>h \<in> set (hook_ids ms). h < n" and dm: "distinct (hook_ids ms)"
    using Cons.prems by (simp_all add: hook_ids_Cons)
  have fresh: "n \<notin> set ls" using Cons.prems(2) by auto
  show ?case
  proof (cases "effect_pending m")
    case True
    let ?ls = "Modal_effect (rendered_isOpen m) n ls"
    obtain ms' ls' n' where r: "run_effects ms ?ls (Suc n) = (ms', ls', n')"
      by (cases "run_effects ms ?ls (Suc n)") auto
    have e: "?ls = (if rendered_isOpen m then ls @ [n] else ls)"
      by (rule Modal_effect_fresh [OF fresh])
    have "effects_post ms ?ls (Suc n) (run_effects ms ?ls (Suc n))"
    proof (rule Cons.IH)
      show "distinct ?ls" using Cons.prems(1) fresh by (simp add: e)
      show "\<forall>h \<in> set ?ls. h < Suc n" using Cons.prems(2) by (auto simp: e)
      show "\<forall>h \<in> set (hook_ids ms). h < Suc n" using lt by auto
      show "distinct (hook_ids ms)" by (rule dm)
    qed
    then have p: "effects_post ms ?ls (Suc n) (ms', ls', n')" by (simp add: r)
    have nn: "n \<notin> set (hook_ids ms')"
      using p lt by (auto simp: effects_post_def)
    have na: "n \<notin> attached ms'"
      using nn attached_subset_hook_ids by blast
    have ns: "n \<notin> settled_attached ms"
      using lt settled_attached_subset by blast
    have sm: "settled_attached (m # ms) = settled_attached ms"
      using True by (auto simp: settled_attached_Cons effect_pending_def)
    have res: "run_effects (m # ms) ls n
        = (m\<lparr> effect_hook := Some (rendered_isOpen m, n) \<rparr> # ms', ls', n')"
      using True r by simp
    have 9: "set ls' = set ls \<union>
        {h \<in> attached (m\<lparr> effect_hook := Some (rendered_isOpen m, n) \<rparr> # ms'). n \<le> h}"
    proof -
      have "set ls' = set ?ls \<union> {h \<in> attached ms'. Suc n \<le> h}"
        using p by (simp add: effects_post_def)
      moreover have "{h \<in> attached ms'. Suc n \<le> h} = {h \<in> attached ms'. n \<le> h}"
        using na by (auto simp: Suc_le_eq le_less)
      ultimately show ?thesis
        by (auto simp: e attached_Cons)
    qed
    have 10: "{h \<in> attached (m\<lparr> effect_hook := Some (rendered_isOpen m, n) \<rparr> # ms'). h < n}
        = settled_attached (m # ms)"
    proof -
      have "{h \<in> attached ms'. h < Suc n} = settled_attached ms"
        using p by (simp add: effects_post_def)
      moreover have "{h \<in> attached ms'. h < Suc n} = {h \<in> attached ms'. h < n}"
        using na by (auto simp: less_Suc_eq)
      ultimately show ?thesis
        by (auto simp: attached_Cons sm)
    qed
    have 11: "{h \<in> set (hook_ids (m\<lparr> effect_hook := Some (rendered_isOpen m, n) \<rparr> # ms')). h < n}
        \<subseteq> set (hook_ids (m # ms))"
      using p by (auto simp: effects_post_def hook_ids_Cons)
    have rest: "n \<le> n'"
      "map rendered_isOpen ms' = map rendered_isOpen ms"
      "map exiting ms' = map exiting ms"
      "\<forall>m \<in> set ms'. \<not> effect_pending m"
      "distinct ls'" "\<forall>h \<in> set ls'. h < n'" "\<forall>h \<in> set (hook_ids ms'). h < n'"
      "distinct (hook_ids ms')" "Suc n \<le> n'"
      using p by (simp_all add: effects_post_def)
    show ?thesis
      unfolding res effects_post_def prod.case
      using rest nn 9 10 11
      by (simp add: hook_ids_Cons effect_pending_def)
  next
    case False
    then obtain h0 where h0: "effect_hook m = Some (rendered_isOpen m, h0)"
      by (auto simp: effect_pending_def split: option.splits)
    obtain ms' ls' n' where r: "run_effects ms ls n = (ms', ls', n')"
      by (cases "run_effects ms ls n") auto
    have "effects_post ms ls n (run_effects ms ls n)"
      using Cons.prems(1,2) lt dm by (rule Cons.IH)
    then have p: "effects_post ms ls n (ms', ls', n')" by (simp add: r)
    have h0n: "h0 < n" using Cons.prems(3) h0 by (simp add: hook_ids_Cons)
    have h0ms: "h0 \<notin> set (hook_ids ms)"
      using Cons.prems(4) h0 by (simp add: hook_ids_Cons)
    have nn: "h0 \<notin> set (hook_ids ms')"
      using p h0n h0ms by (auto simp: effects_post_def)
    have res: "run_effects (m # ms) ls n = (m # ms', ls', n')"
      using False r by simp
    have 9: "set ls' = set ls \<union> {h \<in> attached (m # ms'). n \<le> h}"
      using p h0 h0n by (auto simp: effects_post_def attached_Cons)
    have 10: "{h \<in> attached (m # ms'). h < n} = settled_attached (m # ms)"
    proof -
      have "{h \<in> attached ms'. h < n} = settled_attached ms"
        using p by (simp add: effects_post_def)
      then show ?thesis
        using h0 h0n by (auto simp: attached_Cons settled_attached_Cons)
    qed
    have 11: "{h \<in> set (hook_ids (m # ms')). h < n} \<subseteq> set (hook_ids (m # ms))"
      using p by (auto simp: effects_post_def hook_ids_Cons)
    have rest: "n \<le> n'"
      "map rendered_isOpen ms' = map rendered_isOpen ms"
      "map exiting ms' = map exiting ms"
      "\<forall>m \<in> set ms'. \<not> effect_pending m"
      "distinct ls'" "\<forall>h \<in> set ls'. h < n'" "\<forall>h \<in> set (hook_ids ms'). h < n'"
      "distinct (hook_ids ms')"
      using p by (simp_all add: effects_post_def)
    have hn': "h0 < n'" using h0n rest(1) by simp
    show ?thesis
      unfolding res effects_post_def prod.case
      using rest nn 9 10 11 False h0 hn'
      by (simp add: hook_ids_Cons)
  qed
qed


lemma run_cleanups_other:
  "Modals (run_cleanups s) = Modals s" "next_closure (run_cleanups s) = next_closure s"
  "isOpen_state (run_cleanups s) = isOpen_state s" "unmounted_cleanups (run_cleanups s) = []"
  by (simp_all add: run_cleanups_def)

lemma run_passive_effects_post:
  assumes "listeners_inv s"
  shows "effects_post (Modals s) (listeners (run_cleanups s)) (next_closure s)
           (Modals (run_passive_effects s), listeners (run_passive_effects s),
            next_closure (run_passive_effects s))"
proof -
  have ids: "\<forall>h \<in> set (hook_ids (Modals s)). h < next_closure s"
    and d: "distinct (hook_ids (Modals s))"
    using assms by (simp_all add: listeners_inv_def)
  have l: "\<forall>h \<in> set (listeners (run_cleanups s)). h < next_closure s"
    using run_cleanups_listeners(2) [OF assms] settled_attached_subset [of "Modals s"] ids
    by blast
  obtain ms' ls' n' where
    r: "run_effects (Modals s) (listeners (run_cleanups s)) (next_closure s) = (ms', ls', n')"
    by (cases "run_effects (Modals s) (listeners (run_cleanups s)) (next_closure s)") auto
  have "effects_post (Modals s) (listeners (run_cleanups s)) (next_closure s)
      (run_effects (Modals s) (listeners (run_cleanups s)) (next_closure s))"
    using run_cleanups_listeners(1) [OF assms] l ids d by (rule run_effects_post)
  then show ?thesis
    by (simp add: run_passive_effects_def Let_def run_cleanups_other r)
qed

lemma run_passive_effects_other:
  "unmounted_cleanups (run_passive_effects s) = []"
  "isOpen_state (run_passive_effects s) = isOpen_state s"
proof -
  obtain ms' ls' n' where
    r: "run_effects (Modals s) (listeners (run_cleanups s)) (next_closure s) = (ms', ls', n')"
    by (cases "run_effects (Modals s) (listeners (run_cleanups s)) (next_closure s)") auto
  show "unmounted_cleanups (run_passive_effects s) = []"
    "isOpen_state (run_passive_effects s) = isOpen_state s"
    by (simp_all add: run_passive_effects_def Let_def run_cleanups_other r)
qed

lemma run_passive_effects_props:
  assumes "listeners_inv s"
  shows "listeners_inv (run_passive_effects s)"
    and "\<forall>m \<in> set (Modals (run_passive_effects s)). \<not> effect_pending m"
    and "map rendered_isOpen (Modals (run_passive_effects s)) = map rendered_isOpen (Modals s)"
    and "map exiting (Modals (run_passive_effects s)) = map exiting (Modals s)"
    and "set (listeners (run_passive_effects s)) = attached (Modals (run_passive_effects s))"
    and "distinct (listeners (run_passive_effects s))"
proof -
  let ?s = "run_passive_effects s"
  from run_passive_effects_post [OF assms]
  have p4: "\<forall>m \<in> set (Modals ?s). \<not> effect_pending m"
    and p2: "map rendered_isOpen (Modals ?s) = map rendered_isOpen (Modals s)"
    and p3: "map exiting (Modals ?s) = map exiting (Modals s)"
    and p5: "distinct (listeners ?s)"
    and p7: "\<forall>h \<in> set (hook_ids (Modals ?s)). h < next_closure ?s"
    and p8: "distinct (hook_ids (Modals ?s))"
    and p9: "set (listeners ?s) =
        set (listeners (run_cleanups s)) \<union> {h \<in> attached (Modals ?s). next_closure s \<le> h}"
    and p10: "{h \<in> attached (Modals ?s). h < next_closure s} = settled_attached (Modals s)"
    by (simp_all add: effects_post_def)
  show "\<forall>m \<in> set (Modals ?s). \<not> effect_pending m" by (rule p4)
  show "map rendered_isOpen (Modals ?s) = map rendered_isOpen (Modals s)" by (rule p2)
  show "map exiting (Modals ?s) = map exiting (Modals s)" by (rule p3)
  show "distinct (listeners ?s)" by (rule p5)
  have "set (listeners ?s) =
      {h \<in> attached (Modals ?s). h < next_closure s}
      \<union> {h \<in> attached (Modals ?s). next_closure s \<le> h}"
    by (simp only: p9 p10 run_cleanups_listeners(2) [OF assms])
  also have "\<dots> = attached (Modals ?s)"
    by (auto simp: not_less [symmetric])
  finally show a: "set (listeners ?s) = attached (Modals ?s)" .
  show "listeners_inv ?s"
    using p5 p7 p8 a by (simp add: listeners_inv_def run_passive_effects_other)
qed

lemma hook_ids_cong:
  assumes "map effect_hook ms = map effect_hook ms'"
  shows "hook_ids ms = hook_ids ms'"
proof -
  have h: "hook_ids xs =
      concat (map (\<lambda>k. case k of None \<Rightarrow> [] | Some (d, h) \<Rightarrow> [h]) (map effect_hook xs))" for xs
    by (simp add: hook_ids_def comp_def)
  show ?thesis by (simp only: h assms)
qed

lemma attached_cong:
  assumes "map effect_hook ms = map effect_hook ms'"
  shows "attached ms = attached ms'"
proof -
  have m: "(\<exists>m \<in> set xs. effect_hook m = k) = (k \<in> set (map effect_hook xs))" for k xs
    by auto
  have h: "attached xs = {h. Some (True, h) \<in> set (map effect_hook xs)}" for xs
    unfolding attached_def m ..
  show ?thesis by (simp only: h assms)
qed

lemma listeners_inv_cong:
  "listeners_inv s \<Longrightarrow> listeners s' = listeners s \<Longrightarrow>
   map effect_hook (Modals s') = map effect_hook (Modals s) \<Longrightarrow>
   unmounted_cleanups s' = unmounted_cleanups s \<Longrightarrow> next_closure s' = next_closure s \<Longrightarrow>
   listeners_inv s'"
  unfolding listeners_inv_def
  using hook_ids_cong [of "Modals s'" "Modals s"] attached_cong [of "Modals s'" "Modals s"]
  by simp

lemma returns_layer_eq: "returns_layer ctx = isOpen ctx"
  by (simp add: returns_layer_def Modal_def useModal_def useContext_def)

lemma render_props:
  assumes "listeners_inv s"
  shows "listeners_inv (render s)" and "rendered_current (render s)"
    and "isOpen_state (render s) = isOpen_state s"
proof -
  let ?p = "run_passive_effects s"
  let ?r = "?p\<lparr> Modals := map (render_Modal (ModalProvider ?p)) (Modals ?p) \<rparr>"
  have i: "listeners_inv ?r"
    by (rule listeners_inv_cong [OF run_passive_effects_props(1) [OF assms]])
      (simp_all add: render_Modal_def comp_def)
  have c: "rendered_current ?r"
    by (simp add: rendered_current_def list_all_iff render_Modal_def returns_layer_eq
        ModalProvider_def)
  have o: "isOpen_state ?r = isOpen_state s"
    by (simp add: run_passive_effects_other)
  show "listeners_inv (render s)" using assms i by (simp add: render_def Let_def)
  show "rendered_current (render s)"
    using c by (auto simp: render_def Let_def rendered_current_def)
  show "isOpen_state (render s) = isOpen_state s"
    using o by (simp add: render_def Let_def)
qed

lemma render_id: "rendered_current s \<Longrightarrow> render s = s"
  by (simp add: render_def rendered_current_def)

lemma fold_const:
  "f (f s) = f s \<Longrightarrow> fold (\<lambda>h. f) ls s = (if ls = [] then s else f s)"
proof (induction ls arbitrary: s)
  case Nil
  show ?case by simp
next
  case (Cons a ls)
  from Cons.prems have "f (f (f s)) = f (f s)" by simp
  from Cons.IH [OF this] Cons.prems show ?case by simp
qed

lemma dispatch_keydown_eq:
  "dispatch_keydown key s =
     (if key = ''Escape'' \<and> listeners s \<noteq> [] then setIsOpen False s else s)"
proof (cases "key = ''Escape''")
  case True
  have "handleEscape (ModalProvider s) key = setIsOpen False"
    using True by (auto simp: handleEscape_def ModalProvider_def)
  moreover have "fold (\<lambda>h. setIsOpen False) (listeners s) s
      = (if listeners s = [] then s else setIsOpen False s)"
    by (rule fold_const) (simp add: setIsOpen_def)
  ultimately show ?thesis using True by (simp add: dispatch_keydown_def)
next
  case False
  have "handleEscape (ModalProvider s) key = (\<lambda>w. w)"
    using False by (auto simp: handleEscape_def)
  moreover have "fold (\<lambda>h w. w) ls w = w" for ls :: "nat list" and w :: system
    by (induction ls) auto
  ultimately show ?thesis using False by (simp add: dispatch_keydown_def)
qed

lemma attached_append: "attached (xs @ ys) = attached xs \<union> attached ys"
  by (auto simp: attached_def)

lemma mount_Modal_inv: "listeners_inv s \<Longrightarrow> listeners_inv (mount_Modal s)"
  using run_passive_effects_props(1) [of s]
  by (simp add: mount_Modal_def Let_def listeners_inv_def hook_ids_append attached_append)
    (simp add: hook_ids_def attached_def)

lemma unmount_Modal_inv:
  assumes "listeners_inv s"
  shows "listeners_inv (unmount_Modal i s)"
proof -
  let ?p = "run_passive_effects s"
  note inv = run_passive_effects_props(1) [OF assms]
  show ?thesis
  proof (cases "i < length (Modals ?p)")
    case False
    then show ?thesis using inv by (simp add: unmount_Modal_def Let_def)
  next
    case True
    let ?m = "Modals ?p ! i"
    let ?k = "case effect_hook ?m of None \<Rightarrow> [] | Some (d, h) \<Rightarrow> [h]"
    have split: "Modals ?p = take i (Modals ?p) @ ?m # drop (Suc i) (Modals ?p)"
      by (rule id_take_nth_drop [OF True])
    have ids: "hook_ids (Modals ?p)
        = hook_ids (take i (Modals ?p)) @ ?k @ hook_ids (drop (Suc i) (Modals ?p))"
      by (subst split) (simp add: hook_ids_append hook_ids_Cons)
    have att: "attached (Modals ?p)
        = attached (take i (Modals ?p)) \<union> {h. effect_hook ?m = Some (True, h)}
          \<union> attached (drop (Suc i) (Modals ?p))"
      by (subst split) (auto simp: attached_append attached_Cons)
    have k: "{h. effect_hook ?m = Some (True, h)} \<subseteq> set ?k"
      by (auto split: option.splits)
    have u: "unmount_Modal i s =
        ?p\<lparr> Modals := take i (Modals ?p) @ drop (Suc i) (Modals ?p),
             unmounted_cleanups := unmounted_cleanups ?p @ ?k \<rparr>"
      using True by (simp add: unmount_Modal_def Let_def)
    have a1: "attached (take i (Modals ?p)) \<subseteq> set (hook_ids (take i (Modals ?p)))"
      and a2: "attached (drop (Suc i) (Modals ?p)) \<subseteq> set (hook_ids (drop (Suc i) (Modals ?p)))"
      by (rule attached_subset_hook_ids)+
    show ?thesis
      unfolding u listeners_inv_def
      using inv [unfolded listeners_inv_def ids att] k a1 a2
      by (simp add: hook_ids_append attached_append) blast
  qed
qed

lemma handle_flag_events:
  "handle CallOpenModal s = setIsOpen True s"
  "handle CallCloseModal s = setIsOpen False s"
  "handle ClickTrigger s = setIsOpen True s"
  "handle (ClickBackdrop i) s =
     (if i < length (Modals s) \<and> layer_mounted (Modals s ! i) then setIsOpen False s else s)"
  by (simp_all add: ModalProvider_def Modal_Trigger_def useModal_def useContext_def
      Trigger_handleClick_def Modal_def overlay_click_def void_call_def)

lemma listeners_inv_setIsOpen: "listeners_inv (setIsOpen b s) = listeners_inv s"
  by (simp add: listeners_inv_def setIsOpen_def)

lemma exit_complete_hooks:
  "i < length ms \<Longrightarrow> map effect_hook (ms[i := (ms ! i)\<lparr> exiting := False \<rparr>]) = map effect_hook ms"
  by (simp add: map_update list_update_same_conv)

lemma handle_inv:
  assumes "listeners_inv s"
  shows "listeners_inv (handle e s)"
proof (cases e)
  case CallOpenModal
  then show ?thesis using assms by (simp only: handle_flag_events listeners_inv_setIsOpen)
next
  case CallCloseModal
  then show ?thesis using assms by (simp only: handle_flag_events listeners_inv_setIsOpen)
next
  case ClickTrigger
  then show ?thesis using assms by (simp only: handle_flag_events listeners_inv_setIsOpen)
next
  case (ClickBackdrop i)
  then show ?thesis using assms
    by (simp only: handle_flag_events listeners_inv_setIsOpen if_split) simp
next
  case (KeyDown key)
  then show ?thesis using assms
    by (simp only: handle.simps dispatch_keydown_eq listeners_inv_setIsOpen if_split) simp
next
  case MountModal
  then show ?thesis using assms by (simp add: mount_Modal_inv)
next
  case (UnmountModal i)
  then show ?thesis using assms by (simp add: unmount_Modal_inv)
next
  case (ExitComplete i)
  show ?thesis
  proof (cases "i < length (Modals s)")
    case True
    have "listeners_inv (s\<lparr> Modals := (Modals s)[i := (Modals s ! i)\<lparr> exiting := False \<rparr>] \<rparr>)"
      by (rule listeners_inv_cong [OF assms]) (simp_all add: exit_complete_hooks [OF True])
    then show ?thesis using True ExitComplete by simp
  next
    case False
    then show ?thesis using assms ExitComplete by simp
  qed
next
  case RunEffects
  then show ?thesis using assms by (simp add: run_passive_effects_props(1))
qed

lemma step_inv: "listeners_inv s \<Longrightarrow> listeners_inv (step e s)"
  by (simp add: step_def render_props(1) handle_inv)

lemma step_current: "listeners_inv s \<Longrightarrow> rendered_current (step e s)"
  by (simp add: step_def render_props(2) handle_inv)

lemma init_inv: "listeners_inv mounted_provider"
  by (simp add: listeners_inv_def mounted_provider_def hook_ids_def attached_def)

lemma init_current: "rendered_current mounted_provider"
  by (simp add: rendered_current_def mounted_provider_def)

lemma run_snoc: "run (es @ [e]) s = step e (run es s)"
  by (simp add: run_def)

lemma run_append: "run (es @ es') s = run es' (run es s)"
  by (simp add: run_def)

lemma run_inv: "listeners_inv s \<Longrightarrow> listeners_inv (run es s)"
  by (induction es rule: rev_induct) (simp_all add: run_snoc step_inv, simp add: run_def)

lemma reachable_inv: "listeners_inv (run es mounted_provider)"
  by (rule run_inv) (rule init_inv)

lemma reachable_current: "rendered_current (run es mounted_provider)"
proof (cases es rule: rev_cases)
  case Nil
  then show ?thesis by (simp add: run_def init_current)
next
  case (snoc es' e)
  then show ?thesis by (simp add: run_snoc step_current reachable_inv)
qed

subsection \<open>The flag along a sequence of events\<close>

lemma visible_map: "visible s = (True \<in> set (map rendered_isOpen (Modals s)))"
  by (auto simp: visible_def list_ex_iff)

lemma visible_run_passive_effects:
  "listeners_inv s \<Longrightarrow> visible (run_passive_effects s) = visible s"
  by (simp only: visible_map run_passive_effects_props(3))

lemma settled_hook:
  "\<not> effect_pending m \<Longrightarrow> \<exists>h. effect_hook m = Some (rendered_isOpen m, h)"
  by (auto simp: effect_pending_def split: option.splits)

lemma settled_listeners:
  assumes "listeners_inv s"
  shows "(listeners (run_passive_effects s) \<noteq> []) = visible s"
proof -
  let ?s = "run_passive_effects s"
  have np: "\<forall>m \<in> set (Modals ?s). \<not> effect_pending m"
    by (rule run_passive_effects_props(2) [OF assms])
  have "(attached (Modals ?s) \<noteq> {}) = visible ?s"
  proof
    assume "attached (Modals ?s) \<noteq> {}"
    then obtain m h where m: "m \<in> set (Modals ?s)" "effect_hook m = Some (True, h)"
      by (auto simp: attached_def)
    with np settled_hook [of m] have "rendered_isOpen m" by auto
    with m show "visible ?s" by (auto simp: visible_def list_ex_iff)
  next
    assume "visible ?s"
    then obtain m where m: "m \<in> set (Modals ?s)" "rendered_isOpen m"
      by (auto simp: visible_def list_ex_iff)
    with np settled_hook [of m] obtain h where "effect_hook m = Some (True, h)" by auto
    with m show "attached (Modals ?s) \<noteq> {}" by (auto simp: attached_def)
  qed
  moreover have "(listeners ?s \<noteq> []) = (attached (Modals ?s) \<noteq> {})"
    using run_passive_effects_props(5) [OF assms] by (metis set_empty)
  ultimately show ?thesis
    by (simp add: visible_run_passive_effects [OF assms])
qed

lemma rendered_current_map:
  "rendered_current s = (set (map rendered_isOpen (Modals s)) \<subseteq> {isOpen_state s})"
  by (auto simp: rendered_current_def list_all_iff)

lemma run_passive_effects_current:
  assumes "listeners_inv s" "rendered_current s"
  shows "rendered_current (run_passive_effects s)"
  using assms(2)
  by (simp only: rendered_current_map run_passive_effects_props(3) [OF assms(1)]
      run_passive_effects_other)


lemma step_RunEffects:
  "listeners_inv s \<Longrightarrow> rendered_current s \<Longrightarrow> step RunEffects s = run_passive_effects s"
  by (simp add: step_def render_id run_passive_effects_current)

lemma isOpen_state_handle:
  "isOpen_state (handle e s) =
     (case e of
        CallOpenModal \<Rightarrow> True
      | ClickTrigger \<Rightarrow> True
      | CallCloseModal \<Rightarrow> False
      | ClickBackdrop i \<Rightarrow>
          (if i < length (Modals s) \<and> layer_mounted (Modals s ! i) then False
           else isOpen_state s)
      | KeyDown key \<Rightarrow>
          (if key = ''Escape'' \<and> listeners s \<noteq> [] then False else isOpen_state s)
      | _ \<Rightarrow> isOpen_state s)"
proof (cases e)
  case (KeyDown key)
  then show ?thesis by (simp add: dispatch_keydown_eq setIsOpen_def)
next
  case MountModal
  then show ?thesis by (simp add: mount_Modal_def Let_def run_passive_effects_other)
next
  case (UnmountModal i)
  then show ?thesis by (simp add: unmount_Modal_def Let_def run_passive_effects_other)
next
  case (ExitComplete i)
  then show ?thesis by simp
next
  case RunEffects
  then show ?thesis by (simp add: run_passive_effects_other)
qed (simp_all add: handle_flag_events setIsOpen_def del: handle.simps)

lemma isOpen_state_step:
  "listeners_inv s \<Longrightarrow> isOpen_state (step e s) = isOpen_state (handle e s)"
  by (simp add: step_def render_props(3) handle_inv)

lemma isOpen_state_event:
  assumes "listeners_inv s" "rendered_current s"
  shows "isOpen_state (run (effects_before_keys [e]) s) =
     (if open_event e then True else if close_event e s then False else isOpen_state s)"
proof (cases e)
  case (KeyDown key)
  let ?s = "run_passive_effects s"
  have r: "run (effects_before_keys [KeyDown key]) s = step (KeyDown key) ?s"
    using assms by (simp add: effects_before_keys_def run_def step_RunEffects)
  have i: "listeners_inv ?s" by (rule run_passive_effects_props(1) [OF assms(1)])
  show ?thesis
    unfolding KeyDown
    by (simp add: r isOpen_state_step [OF i] dispatch_keydown_eq setIsOpen_def
        settled_listeners [OF assms(1)] run_passive_effects_other)
qed (simp_all add: effects_before_keys_def run_def isOpen_state_step [OF assms(1)]
      isOpen_state_handle del: handle.simps)

lemma effects_before_keys_snoc:
  "effects_before_keys (es @ [e]) = effects_before_keys es @ effects_before_keys [e]"
  by (simp add: effects_before_keys_def)

lemma opened_not_closed_snoc:
  "opened_not_closed before (es @ [e]) \<longleftrightarrow>
     open_event e \<or> (opened_not_closed before es \<and> \<not> close_event e (before es))"
proof
  assume "opened_not_closed before (es @ [e])"
  then obtain i where i: "i < Suc (length es)" "open_event ((es @ [e]) ! i)"
    and after: "\<forall>j. i < j \<and> j < Suc (length es) \<longrightarrow>
           \<not> close_event ((es @ [e]) ! j) (before (take j (es @ [e])))"
    by (auto simp: opened_not_closed_def)
  show "open_event e \<or> (opened_not_closed before es \<and> \<not> close_event e (before es))"
  proof (cases "i = length es")
    case True
    with i show ?thesis by simp
  next
    case False
    with i have lt: "i < length es" by simp
    have "\<not> close_event e (before es)"
      using after [rule_format, of "length es"] lt by simp
    moreover have "opened_not_closed before es"
      unfolding opened_not_closed_def
    proof (intro exI [of _ i] conjI allI impI)
      show "i < length es" by (rule lt)
      show "open_event (es ! i)" using i lt by (simp add: nth_append)
      fix j assume j: "i < j \<and> j < length es"
      then show "\<not> close_event (es ! j) (before (take j es))"
        using after [rule_format, of j] by (simp add: nth_append)
    qed
    ultimately show ?thesis by simp
  qed
next
  assume r: "open_event e \<or> (opened_not_closed before es \<and> \<not> close_event e (before es))"
  show "opened_not_closed before (es @ [e])"
  proof (cases "open_event e")
    case True
    then show ?thesis
      unfolding opened_not_closed_def by (intro exI [of _ "length es"]) auto
  next
    case False
    with r obtain i where i: "i < length es" "open_event (es ! i)"
      and after: "\<forall>j. i < j \<and> j < length es \<longrightarrow> \<not> close_event (es ! j) (before (take j es))"
      and last: "\<not> close_event e (before es)"
      by (auto simp: opened_not_closed_def)
    show ?thesis
      unfolding opened_not_closed_def
    proof (intro exI [of _ i] conjI allI impI)
      show "i < length (es @ [e])" using i by simp
      show "open_event ((es @ [e]) ! i)" using i by (simp add: nth_append)
      fix j assume j: "i < j \<and> j < length (es @ [e])"
      show "\<not> close_event ((es @ [e]) ! j) (before (take j (es @ [e])))"
      proof (cases "j = length es")
        case True
        then show ?thesis using last by simp
      next
        case False
        with j have "j < length es" by simp
        then show ?thesis using after [rule_format, of j] j by (simp add: nth_append)
      qed
    qed
  qed
qed

lemma isOpen_state_run:
  "isOpen_state (run (effects_before_keys es) mounted_provider)
     = opened_not_closed (\<lambda>es. run (effects_before_keys es) mounted_provider) es"
proof (induction es rule: rev_induct)
  case Nil
  show ?case
    by (simp add: run_def mounted_provider_def opened_not_closed_def effects_before_keys_def)
next
  case (snoc e es)
  show ?case
    using snoc
    by (simp add: effects_before_keys_snoc run_append opened_not_closed_snoc
        isOpen_state_event [OF reachable_inv reachable_current])
qed

subsection \<open>The listeners once the effects have run\<close>

lemma length_hook_ids:
  "\<forall>m \<in> set ms. effect_hook m \<noteq> None \<Longrightarrow> length (hook_ids ms) = length ms"
  by (induction ms) (auto simp: hook_ids_Cons hook_ids_def split: option.splits)

lemma settled_count:
  assumes "listeners_inv s" "rendered_current s"
  shows "length (listeners (run_passive_effects s))
     = (if isOpen_state s then length (Modals s) else 0)"
proof -
  let ?s = "run_passive_effects s"
  have i: "listeners_inv ?s" by (rule run_passive_effects_props(1) [OF assms(1)])
  have c: "rendered_current ?s" by (rule run_passive_effects_current [OF assms])
  have np: "\<forall>m \<in> set (Modals ?s). \<not> effect_pending m"
    by (rule run_passive_effects_props(2) [OF assms(1)])
  have hk: "\<exists>h. effect_hook m = Some (isOpen_state s, h)" if "m \<in> set (Modals ?s)" for m
    using that np settled_hook [of m] c
    by (auto simp: rendered_current_def list_all_iff run_passive_effects_other)
  have l: "length (Modals ?s) = length (Modals s)"
    using run_passive_effects_props(3) [OF assms(1)] by (rule map_eq_imp_length_eq)
  have a: "set (listeners ?s) = attached (Modals ?s)"
    by (rule run_passive_effects_props(5) [OF assms(1)])
  show ?thesis
  proof (cases "isOpen_state s")
    case True
    have "attached (Modals ?s) = set (hook_ids (Modals ?s))"
      using hk True by (fastforce simp: attached_def set_hook_ids)
    then have "set (listeners ?s) = set (hook_ids (Modals ?s))" using a by simp
    moreover have "distinct (listeners ?s)" "distinct (hook_ids (Modals ?s))"
      using i by (simp_all add: listeners_inv_def)
    ultimately have "length (listeners ?s) = length (hook_ids (Modals ?s))"
      by (metis distinct_card)
    moreover have "length (hook_ids (Modals ?s)) = length (Modals ?s)"
      using hk by (intro length_hook_ids) fastforce
    ultimately show ?thesis using True l by simp
  next
    case False
    have "attached (Modals ?s) = {}"
      using hk False by (fastforce simp: attached_def)
    then show ?thesis using a False by simp
  qed
qed

subsection \<open>Specified properties\<close>

text \<open>
  C1. A call of \<^verbatim>\<open>useModal\<close> with no enclosing provider (the context value is absent)
  throws the error with the message "useModal must be used within a ModalProvider";
  with an enclosing provider it returns the context value of the nearest one, without
  error.
\<close>

theorem useModal_outside_provider_throws:
  "useModal [] = Inl (Error ''useModal must be used within a ModalProvider'')
   \<and> useModal (context # outer) = Inr context"
  by (simp add: useModal_def useContext_def)

text \<open>
  C2, as stated, fails: the effect that attaches the escape listener is a passive one, and
  an event can fall between the render that shows the modal and the run of its effect.
  After the mount of a \<^verbatim>\<open>Modal\<close> and a call of \<^verbatim>\<open>openModal\<close> the modal is visible, so a
  press of the escape key is a close event; yet the flag is still set after it, although no
  open event follows.
\<close>

theorem escape_before_effects_leaves_open:
  "close_event (KeyDown ''Escape'') (run [MountModal, CallOpenModal] mounted_provider)
   \<and> isOpen_state (run [MountModal, CallOpenModal, KeyDown ''Escape''] mounted_provider)
   \<and> \<not> opened_not_closed (\<lambda>es. run es mounted_provider)
         [MountModal, CallOpenModal, KeyDown ''Escape'']"
proof -
  have c: "close_event (KeyDown ''Escape'') (run [MountModal, CallOpenModal] mounted_provider)"
    by code_simp
  have o: "isOpen_state (run [MountModal, CallOpenModal, KeyDown ''Escape''] mounted_provider)"
    by code_simp
  have n: "\<not> opened_not_closed (\<lambda>es. run es mounted_provider)
         [MountModal, CallOpenModal, KeyDown ''Escape'']"
    using c
      opened_not_closed_snoc
        [of "\<lambda>es. run es mounted_provider" "[MountModal, CallOpenModal]" "KeyDown ''Escape''"]
    by simp
  show ?thesis using c o n by simp
qed

text \<open>
  C2, amended. After every sequence of events on one provider, starting from its mount, in
  which the pending effects have run before each key press, the flag is set exactly if
  some open event (a click on the trigger, a call of \<^verbatim>\<open>openModal\<close>) of the sequence has no
  close event (a call of \<^verbatim>\<open>closeModal\<close>, a press of the escape key while the modal is
  visible) after it. So the flag is false until the first open event, and true exactly from
  an open event to the next close event.
\<close>

theorem isOpen_between_open_and_close_after_effects:
  "isOpen_state (run (effects_before_keys es) mounted_provider) \<longleftrightarrow>
     (\<exists>i<length es. open_event (es ! i) \<and>
        (\<forall>j. i < j \<and> j < length es \<longrightarrow>
           \<not> close_event (es ! j) (run (effects_before_keys (take j es)) mounted_provider)))"
  by (simp add: isOpen_state_run opened_not_closed_def)

text \<open>
  With the effects run before the key press, the sequence mount, \<^verbatim>\<open>openModal\<close>, Escape
  clears the flag; mount, trigger, Enter leaves it set.
\<close>

theorem isOpen_between_open_and_close_after_effects_witness:
  "isOpen_state
     (run (effects_before_keys [MountModal, ClickTrigger, KeyDown ''Enter'']) mounted_provider)
   \<and> \<not> isOpen_state
         (run (effects_before_keys [MountModal, CallOpenModal, KeyDown ''Escape''])
            mounted_provider)"
proof -
  let ?B = "\<lambda>es. run (effects_before_keys es) mounted_provider"
  have v: "visible (?B [MountModal, CallOpenModal])"
    by code_simp
  have t: "opened_not_closed ?B [MountModal, ClickTrigger]"
    using opened_not_closed_snoc [of ?B "[MountModal]" ClickTrigger] by simp
  have a: "opened_not_closed ?B [MountModal, ClickTrigger, KeyDown ''Enter'']"
    using t opened_not_closed_snoc [of ?B "[MountModal, ClickTrigger]" "KeyDown ''Enter''"]
    by simp
  have b: "\<not> opened_not_closed ?B [MountModal, CallOpenModal, KeyDown ''Escape'']"
    using v opened_not_closed_snoc [of ?B "[MountModal, CallOpenModal]" "KeyDown ''Escape''"]
    by simp
  show ?thesis
    using a b
      isOpen_between_open_and_close_after_effects
        [of "[MountModal, ClickTrigger, KeyDown ''Enter'']"]
      isOpen_between_open_and_close_after_effects
        [of "[MountModal, CallOpenModal, KeyDown ''Escape'']"]
    by (simp add: opened_not_closed_def)
qed

text \<open>
  C3, as stated, fails: after the mount of a \<^verbatim>\<open>Modal\<close> and a call of \<^verbatim>\<open>openModal\<close> the flag
  is true and the modal is visible, but its effect has not run; a \<^verbatim>\<open>keydown\<close> event with
  the key "Escape" then finds no listener, does not call \<^verbatim>\<open>closeModal\<close>, and leaves the flag
  set.
\<close>

theorem escape_ignored_before_effects:
  "isOpen_state (run [MountModal, CallOpenModal] mounted_provider)
   \<and> visible (run [MountModal, CallOpenModal] mounted_provider)
   \<and> handle (KeyDown ''Escape'') (run [MountModal, CallOpenModal] mounted_provider)
       = run [MountModal, CallOpenModal] mounted_provider
   \<and> handle (KeyDown ''Escape'') (run [MountModal, CallOpenModal] mounted_provider)
       \<noteq> closeModal (ModalProvider (run [MountModal, CallOpenModal] mounted_provider))
            (run [MountModal, CallOpenModal] mounted_provider)
   \<and> isOpen_state (step (KeyDown ''Escape'') (run [MountModal, CallOpenModal] mounted_provider))"
  by code_simp

text \<open>
  C3, amended. In every state that the page can reach: if the modal is visible, then once
  the pending effects have run a \<^verbatim>\<open>keydown\<close> event with the key "Escape" calls
  \<^verbatim>\<open>closeModal\<close>, and the flag is false afterwards. If the flag is false, the same event
  leaves the state as it was, and once the pending effects have run no listener is attached.
\<close>

theorem escape_closes_after_effects:
  "(visible (run es mounted_provider) \<longrightarrow>
      handle (KeyDown ''Escape'') (step RunEffects (run es mounted_provider))
        = closeModal (ModalProvider (step RunEffects (run es mounted_provider)))
            (step RunEffects (run es mounted_provider))
      \<and> \<not> isOpen_state
            (step (KeyDown ''Escape'') (step RunEffects (run es mounted_provider))))
   \<and> (\<not> isOpen_state (run es mounted_provider) \<longrightarrow>
      listeners (step RunEffects (run es mounted_provider)) = []
      \<and> step (KeyDown ''Escape'') (run es mounted_provider) = run es mounted_provider)"
proof -
  define s where "s = run es mounted_provider"
  define p where "p = run_passive_effects s"
  have i: "listeners_inv s" unfolding s_def by (rule reachable_inv)
  have c: "rendered_current s" unfolding s_def by (rule reachable_current)
  have sp: "step RunEffects s = p" unfolding p_def by (rule step_RunEffects [OF i c])
  have ip: "listeners_inv p" unfolding p_def by (rule run_passive_effects_props(1) [OF i])
  have l: "(listeners p \<noteq> []) = visible s" unfolding p_def by (rule settled_listeners [OF i])
  have a: "handle (KeyDown ''Escape'') p = closeModal (ModalProvider p) p" if "visible s"
    using that l by (simp add: dispatch_keydown_eq ModalProvider_def)
  have b: "\<not> isOpen_state (step (KeyDown ''Escape'') p)" if "visible s"
    using that l by (simp add: isOpen_state_step [OF ip] dispatch_keydown_eq setIsOpen_def)
  have d: "listeners p = []" if "\<not> isOpen_state s"
    using that settled_count [OF i c] by (simp add: p_def)
  have "setIsOpen False s = s" if "\<not> isOpen_state s"
    using that by (simp add: setIsOpen_def)
  then have e: "step (KeyDown ''Escape'') s = s" if "\<not> isOpen_state s"
    using that c by (simp add: step_def dispatch_keydown_eq render_id)
  show ?thesis
    using a b d e unfolding sp s_def [symmetric] by blast
qed

theorem escape_closes_after_effects_witness:
  "visible (run [MountModal, CallOpenModal] mounted_provider)
   \<and> \<not> isOpen_state
         (step (KeyDown ''Escape'')
            (step RunEffects (run [MountModal, CallOpenModal] mounted_provider)))
   \<and> \<not> isOpen_state (run [MountModal] mounted_provider)
   \<and> step (KeyDown ''Escape'') (run [MountModal] mounted_provider)
       = run [MountModal] mounted_provider"
proof -
  have v: "visible (run [MountModal, CallOpenModal] mounted_provider)"
    by code_simp
  have n: "\<not> isOpen_state (run [MountModal] mounted_provider)"
    by code_simp
  show ?thesis
    using v n escape_closes_after_effects [of "[MountModal, CallOpenModal]"]
      escape_closes_after_effects [of "[MountModal]"]
    by blast
qed

text \<open>
  C4. A click on the backdrop of an open modal: without an \<^verbatim>\<open>onClickOutside\<close> prop it
  calls \<^verbatim>\<open>closeModal\<close>; with one, it calls that handler and nothing else, so the default
  close does not run.
\<close>

theorem backdrop_click_default_or_custom:
  assumes "isOpen ctx"
  shows "(\<exists>ov. Modal (ctx # outer) None c = Inr (Some ov)
            \<and> (\<forall>w. overlay_click Backdrop ov w = Normal Void (closeModal ctx w)))
       \<and> (\<exists>ov. Modal (ctx # outer) (Some f) c = Inr (Some ov)
            \<and> (\<forall>w. overlay_click Backdrop ov w = f w))"
  using assms
  by (simp add: Modal_def useModal_def useContext_def overlay_click_def void_call_def)

theorem backdrop_click_default_or_custom_witness:
  "isOpen (ModalProvider (run [MountModal, ClickTrigger] mounted_provider))
   \<and> (\<exists>ov. Modal [ModalProvider (run [MountModal, ClickTrigger] mounted_provider)] None ()
              = Inr (Some ov)
         \<and> (\<forall>w. overlay_click Backdrop ov w = Normal Void (setIsOpen False w)))
   \<and> (\<exists>ov. Modal [ModalProvider (run [MountModal, ClickTrigger] mounted_provider)]
              (Some (\<lambda>w. Normal Void w)) () = Inr (Some ov)
         \<and> (\<forall>w. overlay_click Backdrop ov w = Normal Void w))"
proof -
  have o: "isOpen (ModalProvider (run [MountModal, ClickTrigger] mounted_provider))"
    by code_simp
  have c: "closeModal (ModalProvider s) = setIsOpen False" for s
    by (simp add: ModalProvider_def)
  show ?thesis
    using o backdrop_click_default_or_custom [OF o, of "[]" "()" "\<lambda>w. Normal Void w"]
    by (simp only: c simp_thms)
qed

text \<open>
  C5. A click on a \<^verbatim>\<open>Modal.Action\<close>: with no \<^verbatim>\<open>onClick\<close> handler, \<^verbatim>\<open>closeModal\<close> is
  called at once. With a handler that returns a promise, the click returns suspended on
  that promise, in the world the handler left, without a call of \<^verbatim>\<open>closeModal\<close>; the
  call comes when the promise is fulfilled, and not when it is rejected.
\<close>

theorem action_awaits_handler_before_close:
  "(onClick props = None \<longrightarrow>
      (\<exists>el. Modal_Action (ctx # outer) props = Inr el
         \<and> element_onClick el w = Resolved (closeModal ctx w)))
   \<and> (onClick props = Some f \<and> f w = Normal (Promise p) w' \<longrightarrow>
      (\<exists>el k. Modal_Action (ctx # outer) props = Inr el
         \<and> element_onClick el w = Suspended (Promise p) w' k
         \<and> (\<forall>w''. k Fulfilled w'' = Resolved (closeModal ctx w''))
         \<and> (\<forall>w''. k Rejected w'' = Failed w'')))"
  by (simp add: Modal_Action_def useModal_def useContext_def Action_handleClick_def await_def)

text \<open>
  On an open modal: an action without a handler closes at once; an action whose handler
  returns the promise 0 is suspended with the modal still open.
\<close>

theorem action_awaits_handler_before_close_witness:
  "onClick \<lparr> fullWidth = None, onClick = None, className = None, children = () \<rparr> = None
   \<and> (\<exists>el. Modal_Action [ModalProvider (setIsOpen True mounted_provider)]
              \<lparr> fullWidth = None, onClick = None, className = None, children = () \<rparr> = Inr el
         \<and> element_onClick el (setIsOpen True mounted_provider)
             = Resolved (setIsOpen False (setIsOpen True mounted_provider)))
   \<and> (\<lambda>w. Normal (Promise 0) w) (setIsOpen True mounted_provider)
       = Normal (Promise 0) (setIsOpen True mounted_provider)
   \<and> (\<exists>el k. Modal_Action [ModalProvider (setIsOpen True mounted_provider)]
              \<lparr> fullWidth = None, onClick = Some (\<lambda>w. Normal (Promise 0) w),
                className = None, children = () \<rparr> = Inr el
         \<and> element_onClick el (setIsOpen True mounted_provider)
             = Suspended (Promise 0) (setIsOpen True mounted_provider) k
         \<and> isOpen_state (setIsOpen True mounted_provider)
         \<and> (\<forall>w''. k Fulfilled w'' = Resolved (setIsOpen False w''))
         \<and> (\<forall>w''. k Rejected w'' = Failed w''))"
proof -
  have c: "closeModal (ModalProvider s) = setIsOpen False" for s
    by (simp add: ModalProvider_def)
  have o: "isOpen_state (setIsOpen True mounted_provider)"
    by (simp add: setIsOpen_def)
  show ?thesis
    using o
      action_awaits_handler_before_close
        [where props = "\<lparr> fullWidth = None, onClick = None, className = None, children = () \<rparr>"
          and ctx = "ModalProvider (setIsOpen True mounted_provider)" and outer = "[]"
          and w = "setIsOpen True mounted_provider"]
      action_awaits_handler_before_close
        [where props = "\<lparr> fullWidth = None, onClick = Some (\<lambda>w. Normal (Promise 0) w),
                          className = None, children = () \<rparr>"
          and ctx = "ModalProvider (setIsOpen True mounted_provider)" and outer = "[]"
          and w = "setIsOpen True mounted_provider" and f = "\<lambda>w. Normal (Promise 0) w"
          and p = 0 and w' = "setIsOpen True mounted_provider"]
    by (simp add: c)
qed

text \<open>
  C9. A click on a \<^verbatim>\<open>Modal.Action\<close> whose handler throws ends failed in the world the
  handler left. One whose handler returns a promise is suspended on it in the world the
  handler left, and ends failed in the world of the moment the promise is rejected. So at
  no point of a failed action is \<^verbatim>\<open>closeModal\<close> called.
\<close>

theorem failed_action_does_not_close:
  "(onClick props = Some f \<and> f w = Thrown w' \<longrightarrow>
      (\<exists>el. Modal_Action (ctx # outer) props = Inr el \<and> element_onClick el w = Failed w'))
   \<and> (onClick props = Some f \<and> f w = Normal (Promise p) w' \<longrightarrow>
      (\<exists>el k. Modal_Action (ctx # outer) props = Inr el
         \<and> element_onClick el w = Suspended (Promise p) w' k
         \<and> (\<forall>w''. k Rejected w'' = Failed w'')))"
  by (simp add: Modal_Action_def useModal_def useContext_def Action_handleClick_def await_def)

text \<open>
  On an open modal: after a handler that throws, and after the rejection of the promise
  that a handler returned, the modal is still open.
\<close>

theorem failed_action_does_not_close_witness:
  "(\<lambda>w. Thrown w) (setIsOpen True mounted_provider) = Thrown (setIsOpen True mounted_provider)
   \<and> (\<exists>el. Modal_Action [ModalProvider (setIsOpen True mounted_provider)]
              \<lparr> fullWidth = None, onClick = Some (\<lambda>w. Thrown w),
                className = None, children = () \<rparr> = Inr el
         \<and> element_onClick el (setIsOpen True mounted_provider)
             = Failed (setIsOpen True mounted_provider))
   \<and> (\<lambda>w. Normal (Promise 0) w) (setIsOpen True mounted_provider)
       = Normal (Promise 0) (setIsOpen True mounted_provider)
   \<and> (\<exists>el k. Modal_Action [ModalProvider (setIsOpen True mounted_provider)]
              \<lparr> fullWidth = None, onClick = Some (\<lambda>w. Normal (Promise 0) w),
                className = None, children = () \<rparr> = Inr el
         \<and> element_onClick el (setIsOpen True mounted_provider)
             = Suspended (Promise 0) (setIsOpen True mounted_provider) k
         \<and> k Rejected (setIsOpen True mounted_provider)
             = Failed (setIsOpen True mounted_provider))
   \<and> isOpen_state (setIsOpen True mounted_provider)"
proof -
  have o: "isOpen_state (setIsOpen True mounted_provider)"
    by (simp add: setIsOpen_def)
  show ?thesis
    using o
      failed_action_does_not_close
        [where props = "\<lparr> fullWidth = None, onClick = Some (\<lambda>w. Thrown w),
                          className = None, children = () \<rparr>"
          and ctx = "ModalProvider (setIsOpen True mounted_provider)" and outer = "[]"
          and w = "setIsOpen True mounted_provider" and f = "\<lambda>w. Thrown w"
          and w' = "setIsOpen True mounted_provider"]
      failed_action_does_not_close
        [where props = "\<lparr> fullWidth = None, onClick = Some (\<lambda>w. Normal (Promise 0) w),
                          className = None, children = () \<rparr>"
          and ctx = "ModalProvider (setIsOpen True mounted_provider)" and outer = "[]"
          and w = "setIsOpen True mounted_provider" and f = "\<lambda>w. Normal (Promise 0) w"
          and p = 0 and w' = "setIsOpen True mounted_provider"]
    by auto
qed

text \<open>
  C10. \<^verbatim>\<open>Modal.Close\<close> renders the same for every \<^verbatim>\<open>onClick\<close> in its props: it is the
  \<^verbatim>\<open>Modal.Action\<close> whose \<^verbatim>\<open>onClick\<close> is \<^verbatim>\<open>closeModal\<close>. A click on it calls
  \<^verbatim>\<open>closeModal\<close> as that handler, and once more when the awaited result arrives; the
  caller's handler is never called.
\<close>

theorem close_discards_caller_onClick:
  "Modal_Close (ctx # outer) (props\<lparr> onClick := h \<rparr>) = Modal_Close (ctx # outer) props
   \<and> Modal_Close (ctx # outer) props =
       Modal_Action (ctx # outer) (props\<lparr> onClick := Some (void_call (closeModal ctx)) \<rparr>)
   \<and> (\<exists>el k. Modal_Close (ctx # outer) props = Inr el
          \<and> element_children el = children props
          \<and> element_onClick el w = Suspended Void (closeModal ctx w) k
          \<and> (\<forall>r w'. k r w' = Resolved (closeModal ctx w')))"
  by (simp add: Modal_Close_def Modal_Action_def useModal_def useContext_def
      Action_handleClick_def await_def void_call_def)




text \<open>
  C6, as stated, fails: the listener is not attached when the modal becomes visible but
  when the effect of that render runs. After the mount of a \<^verbatim>\<open>Modal\<close> and a call of
  \<^verbatim>\<open>openModal\<close> the flag is true and the modal is visible, and no listener is registered.
\<close>

theorem listener_lags_behind_render:
  "isOpen_state (run [MountModal, CallOpenModal] mounted_provider)
   \<and> visible (run [MountModal, CallOpenModal] mounted_provider)
   \<and> listeners (run [MountModal, CallOpenModal] mounted_provider) = []"
  by code_simp

text \<open>
  C6, amended. In every state that the page can reach, once the pending effects have run:
  the document holds no listener twice; its listeners are exactly the closures that the
  last runs of the effects of the mounted \<^verbatim>\<open>Modal\<close>s attached, one for each mounted
  \<^verbatim>\<open>Modal\<close> if the flag is true and none if it is false; no cleanup is pending. So once
  every \<^verbatim>\<open>Modal\<close> is unmounted and the effects have run, no listener remains registered.
\<close>

theorem escape_listeners_after_effects:
  "distinct (listeners (step RunEffects (run es mounted_provider)))
   \<and> set (listeners (step RunEffects (run es mounted_provider)))
       = attached (Modals (step RunEffects (run es mounted_provider)))
   \<and> length (listeners (step RunEffects (run es mounted_provider)))
       = (if isOpen_state (run es mounted_provider)
          then length (Modals (run es mounted_provider)) else 0)
   \<and> unmounted_cleanups (step RunEffects (run es mounted_provider)) = []
   \<and> (Modals (run es mounted_provider) = [] \<longrightarrow>
        listeners (step RunEffects (run es mounted_provider)) = [])"
proof -
  define s where "s = run es mounted_provider"
  have i: "listeners_inv s" unfolding s_def by (rule reachable_inv)
  have c: "rendered_current s" unfolding s_def by (rule reachable_current)
  have sp: "step RunEffects s = run_passive_effects s" by (rule step_RunEffects [OF i c])
  have n: "length (listeners (run_passive_effects s))
      = (if isOpen_state s then length (Modals s) else 0)"
    by (rule settled_count [OF i c])
  then have "Modals s = [] \<longrightarrow> listeners (run_passive_effects s) = []"
    by (auto split: if_splits)
  then show ?thesis
    using n run_passive_effects_props(5,6) [OF i] run_passive_effects_other(1) [of s]
    unfolding s_def [symmetric] sp by simp
qed

text \<open>
  Two \<^verbatim>\<open>Modal\<close>s under an open provider hold two listeners once the effects have run;
  after the unmount of the only \<^verbatim>\<open>Modal\<close>, open, and the run of the effects, none is left.
\<close>

theorem escape_listeners_after_effects_witness:
  "isOpen_state (run [MountModal, MountModal, ClickTrigger] mounted_provider)
   \<and> length (listeners
        (step RunEffects (run [MountModal, MountModal, ClickTrigger] mounted_provider))) = 2
   \<and> Modals (run [MountModal, RunEffects, CallOpenModal, RunEffects, UnmountModal 0]
        mounted_provider) = []
   \<and> listeners
        (step RunEffects
           (run [MountModal, RunEffects, CallOpenModal, RunEffects, UnmountModal 0]
              mounted_provider)) = []"
proof -
  have a: "isOpen_state (run [MountModal, MountModal, ClickTrigger] mounted_provider)"
    "length (Modals (run [MountModal, MountModal, ClickTrigger] mounted_provider)) = 2"
    by code_simp+
  have b: "Modals (run [MountModal, RunEffects, CallOpenModal, RunEffects, UnmountModal 0]
        mounted_provider) = []"
    by code_simp
  show ?thesis
    using a b escape_listeners_after_effects [of "[MountModal, MountModal, ClickTrigger]"]
      escape_listeners_after_effects
        [of "[MountModal, RunEffects, CallOpenModal, RunEffects, UnmountModal 0]"]
    by simp
qed

text \<open>
  C8. The two closures of the provider change the one boolean and nothing else. From every
  prior state, \<^verbatim>\<open>openModal\<close> leaves it open and a following \<^verbatim>\<open>closeModal\<close> leaves it
  closed; \<^verbatim>\<open>openModal\<close> on a closed state and \<^verbatim>\<open>closeModal\<close> on an open state flip it.
\<close>

theorem provider_closures_flip_flag:
  "openModal (ModalProvider s) s = s\<lparr> isOpen_state := True \<rparr>
   \<and> closeModal (ModalProvider s) s = s\<lparr> isOpen_state := False \<rparr>
   \<and> isOpen_state (openModal (ModalProvider s) s)
   \<and> \<not> isOpen_state (closeModal (ModalProvider s) (openModal (ModalProvider s) s))
   \<and> (\<not> isOpen_state s \<longrightarrow> isOpen_state (openModal (ModalProvider s) s) \<noteq> isOpen_state s)
   \<and> (isOpen_state s \<longrightarrow> isOpen_state (closeModal (ModalProvider s) s) \<noteq> isOpen_state s)"
  by (simp add: ModalProvider_def setIsOpen_def)

theorem provider_closures_flip_flag_witness:
  "\<not> isOpen_state mounted_provider
   \<and> isOpen_state (openModal (ModalProvider mounted_provider) mounted_provider)
   \<and> isOpen_state (run [CallOpenModal] mounted_provider)
   \<and> \<not> isOpen_state
         (closeModal (ModalProvider (run [CallOpenModal] mounted_provider))
            (run [CallOpenModal] mounted_provider))"
proof -
  have n: "\<not> isOpen_state mounted_provider"
    by (simp add: mounted_provider_def)
  have o: "isOpen_state (run [CallOpenModal] mounted_provider)"
    by code_simp
  show ?thesis
    using n o provider_closures_flip_flag [of mounted_provider]
      provider_closures_flip_flag [of "run [CallOpenModal] mounted_provider"]
    by simp
qed

end
